theory Spec2Isabelle
  imports Main "HOL-Library.Sublist" "HOL-Library.Multiset"
begin

section \<open>Strings and formatted lines\<close>

text \<open>
  A Python \<open>str\<close> is a \<open>string\<close>; a character is read as the code point below 256 that
  it encodes.  \<open>py_isspace\<close> is \<open>str.isspace\<close> on those code points (tab to carriage return,
  the four separators 28 to 31, the space, NEL and the no-break space), \<open>strip\<close> is
  \<open>str.strip()\<close>, \<open>startswith\<close> is \<open>str.startswith\<close> and \<open>py_join\<close> is \<open>sep.join(items)\<close>.
\<close>

definition py_isspace :: "char \<Rightarrow> bool" where
  "py_isspace c = (of_char c \<in> {9, 10, 11, 12, 13, 28, 29, 30, 31, 32, 133, 160 :: nat})"

definition strip :: "string \<Rightarrow> string" where
  "strip s = rev (dropWhile py_isspace (rev (dropWhile py_isspace s)))"

definition startswith :: "string \<Rightarrow> string \<Rightarrow> bool" where
  "startswith s p = (take (length p) s = p)"

fun py_join :: "string \<Rightarrow> string list \<Rightarrow> string" where
  "py_join sep [] = []"
| "py_join sep [x] = x"
| "py_join sep (x # y # ys) = x @ sep @ py_join sep (y # ys)"

text \<open>
  \<open>FormattedLines\<close> is a list of pairs of an optional source line number and the rendered
  text.  Source line numbers are the parser's 1-based line numbers, hence naturals (a
  negative number, from which a Python slice would count back from the end, does not
  occur).  A comment table is a list of optional comment texts indexed by source line
  number.
\<close>

type_synonym fline = "nat option \<times> string"

type_synonym comment_table = "string option list"

text \<open>\<open>[c for c in comments if c is not None]\<close>\<close>

fun somes :: "'a option list \<Rightarrow> 'a list" where
  "somes [] = []"
| "somes (None # xs) = somes xs"
| "somes (Some x # xs) = x # somes xs"

text \<open>The exceptions the code can raise; a function that can raise returns a sum.\<close>

datatype error = KeyError string | IndexError | AttributeError | UnboundLocalError

section \<open>The inline-comment pass\<close>

text \<open>
  \<open>_add_inline_comments\<close> of \<open>formatter.py\<close>.  \<open>INLINE_COMMENT_OFFSET\<close> comes from
  \<open>constants.py\<close>, which is not among the sources, so it is the parameter \<open>off\<close>.
  The loop runs over the reversed lines with the state \<open>(remaining_comments,
  postprocessed_lines)\<close>; the slices \<open>remaining_comments[line_no:]\<close> and
  \<open>remaining_comments[:line_no]\<close> are \<open>drop\<close> and \<open>take\<close>, which clip at the end of the
  list as Python's slices do.
\<close>

definition comment_offset :: "nat \<Rightarrow> string" where
  "comment_offset off = replicate off (CHR '' '')"

fun inline_loop ::
  "nat \<Rightarrow> fline list \<Rightarrow> comment_table \<Rightarrow> fline list \<Rightarrow> comment_table \<times> fline list" where
  "inline_loop off [] remaining postprocessed = (remaining, postprocessed)"
| "inline_loop off ((None, line) # rest) remaining postprocessed =
     inline_loop off rest remaining (postprocessed @ [(None, line)])"
| "inline_loop off ((Some line_no, line) # rest) remaining postprocessed =
     (let comments = drop line_no remaining;
          remaining' = take line_no remaining
      in if comments \<noteq> [] then
           inline_loop off rest remaining'
             (postprocessed @ [(Some line_no, py_join (comment_offset off) (line # somes comments))])
         else inline_loop off rest remaining' (postprocessed @ [(Some line_no, line)]))"

definition add_inline_comments :: "nat \<Rightarrow> fline list \<Rightarrow> comment_table \<Rightarrow> fline list" where
  "add_inline_comments off formatted_lines comments =
     rev (snd (inline_loop off (rev formatted_lines) comments []))"

text \<open>
  The cursor of the scan: the length of \<open>remaining_comments\<close> once the lines of \<open>ls\<close> have
  been scanned tail to head, starting from a table of length \<open>len\<close>.
\<close>

fun inline_cursor :: "fline list \<Rightarrow> nat \<Rightarrow> nat" where
  "inline_cursor [] len = len"
| "inline_cursor ((None, line) # ls) len = inline_cursor ls len"
| "inline_cursor ((Some n, line) # ls) len = min n (inline_cursor ls len)"

text \<open>The comments a line is given: each one after the fixed offset, in index order.\<close>

definition attach :: "nat \<Rightarrow> string \<Rightarrow> string list \<Rightarrow> string" where
  "attach off line cs = line @ concat (map (\<lambda>c. comment_offset off @ c) cs)"

section \<open>The standalone-comment pass\<close>

text \<open>
  \<open>_get_greater_indent\<close>.  The compiled pattern \<open>indent_regex\<close> belongs to the context
  class, which is not among the sources; it is the parameter \<open>re\<close>, the result of
  \<open>indent_regex.search\<close> on a line: \<open>None\<close> when there is no match, the matched text
  (\<open>group(0)\<close>) otherwise.
\<close>

definition get_greater_indent :: "(string \<Rightarrow> string option) \<Rightarrow> string \<Rightarrow> string \<Rightarrow> string" where
  "get_greater_indent re line_a line_b =
     (let line_a_indent = (case re line_a of None \<Rightarrow> [] | Some m \<Rightarrow> m);
          line_b_indent = (case re line_b of None \<Rightarrow> [] | Some m \<Rightarrow> m)
      in if length line_a_indent > length line_b_indent then line_a_indent else line_b_indent)"

text \<open>
  \<open>while postprocessed_lines and postprocessed_lines[-1][1].strip() == "": pop()\<close>, on the
  buffer in the order it was appended (the last element is the latest).
\<close>

function pop_blank :: "fline list \<Rightarrow> fline list" where
  "pop_blank ls = (if ls \<noteq> [] \<and> strip (snd (last ls)) = [] then pop_blank (butlast ls) else ls)"
  by pat_completeness auto
termination
  by (relation "measure length") auto

declare pop_blank.simps [simp del]

text \<open>
  The inner loop \<open>for i, comment in enumerate(reversed_comments)\<close>, on the part of
  \<open>reversed_comments\<close> from index \<open>i\<close> on: \<open>i + 1 < len(reversed_comments)\<close> says that the
  rest is not empty and \<open>reversed_comments[i + 1]\<close> is its head.  \<open>next_comment and ...\<close>
  needs a comment that is neither \<open>None\<close> nor the empty string.
\<close>

definition region_follows :: "string option list \<Rightarrow> bool" where
  "region_follows rest =
     (case rest of
        [] \<Rightarrow> False
      | None # _ \<Rightarrow> False
      | Some next_comment # _ \<Rightarrow> next_comment \<noteq> [] \<and> startswith (strip next_comment) ''#region'')"

fun emit_comments :: "string \<Rightarrow> string option list \<Rightarrow> fline list \<Rightarrow> fline list" where
  "emit_comments indent [] postprocessed = postprocessed"
| "emit_comments indent (None # rest) postprocessed = emit_comments indent rest postprocessed"
| "emit_comments indent (Some comment # rest) postprocessed =
     (let stripped = strip comment in
      if startswith stripped ''#region'' then
        emit_comments indent rest (postprocessed @ [(None, [])] @ [(None, indent @ comment)])
      else if startswith stripped ''#endregion'' then
        (let popped = pop_blank postprocessed @ [(None, indent @ comment)]
         in emit_comments indent rest
              (if region_follows rest then popped @ [(None, [])] @ [(None, [])] else popped))
      else emit_comments indent rest (postprocessed @ [(None, indent @ comment)]))"

text \<open>
  The outer loop over the reversed lines, with the state \<open>(remaining_comments,
  postprocessed_lines, currently_inside_expression, last_expression_line_no)\<close>.  The slice
  \<open>remaining_comments[line_no:last_expression_line_no]\<close> is \<open>py_slice\<close>;
  \<open>postprocessed_lines[-1]\<close> raises \<open>IndexError\<close> on an empty buffer.
\<close>

definition py_slice :: "'a list \<Rightarrow> nat \<Rightarrow> nat option \<Rightarrow> 'a list" where
  "py_slice xs lo hi = (case hi of None \<Rightarrow> drop lo xs | Some h \<Rightarrow> drop lo (take h xs))"

fun standalone_loop ::
  "(string \<Rightarrow> string option) \<Rightarrow> fline list \<Rightarrow> comment_table \<Rightarrow> fline list \<Rightarrow> bool \<Rightarrow> nat option
     \<Rightarrow> error + fline list" where
  "standalone_loop re [] remaining postprocessed inside last_no = Inr postprocessed"
| "standalone_loop re ((None, line) # rest) remaining postprocessed inside last_no =
     standalone_loop re rest remaining (postprocessed @ [(None, line)]) False last_no"
| "standalone_loop re ((Some line_no, line) # rest) remaining postprocessed inside last_no =
     (if \<not> inside then
        standalone_loop re rest remaining (postprocessed @ [(Some line_no, line)]) True (Some line_no)
      else if postprocessed = [] then Inl IndexError
      else
        (let comments = py_slice remaining line_no last_no;
             remaining' = take line_no remaining;
             indent = get_greater_indent re line (snd (last postprocessed));
             reversed_comments = rev comments
         in standalone_loop re rest remaining'
              (emit_comments indent reversed_comments postprocessed @ [(Some line_no, line)])
              inside last_no))"

definition add_standalone_comments ::
  "(string \<Rightarrow> string option) \<Rightarrow> fline list \<Rightarrow> comment_table \<Rightarrow> error + fline list" where
  "add_standalone_comments re formatted_lines standalone_comments =
     map_sum id rev (standalone_loop re (rev formatted_lines) standalone_comments [] False None)"

text \<open>
  An indentation pattern for the evaluations below: the run of spaces a line starts with,
  and no match on a line that starts with no space (the pattern \<open>^ +\<close>).
\<close>

definition space_indent :: "string \<Rightarrow> string option" where
  "space_indent s =
     (if takeWhile (\<lambda>c. c = CHR 0x20) s = [] then None
      else Some (takeWhile (\<lambda>c. c = CHR 0x20) s))"

section \<open>The region-spacing cleanup\<close>

text \<open>
  \<open>_cleanup_region_spacing\<close>.  The outer \<open>while i < len(formatted_lines)\<close> is a recursion
  on the lines from index \<open>i\<close> on, with the buffer \<open>cleaned\<close>; the look-ahead
  \<open>while j < len(formatted_lines)\<close> is \<open>lookahead\<close> on the lines from index \<open>i + 1\<close> on,
  with the counter \<open>blank_lines\<close>.  \<open>range(missing)\<close> is empty for a negative \<open>missing\<close>.
\<close>

fun lookahead :: "fline list \<Rightarrow> int \<Rightarrow> fline list" where
  "lookahead [] blank_lines = []"
| "lookahead ((no, next_line) # rest) blank_lines =
     (if strip next_line = [] then lookahead rest (blank_lines + 1)
      else if startswith (strip next_line) ''#region'' then
        (let missing = 2 - blank_lines in replicate (nat missing) (None, []))
      else [])"

fun cleanup_loop :: "fline list \<Rightarrow> fline list \<Rightarrow> fline list" where
  "cleanup_loop [] cleaned = cleaned"
| "cleanup_loop ((line_no, line) # rest) cleaned =
     (let stripped = strip line in
      if startswith stripped ''#endregion'' then
        cleanup_loop rest (pop_blank cleaned @ [(line_no, line)] @ lookahead rest 0)
      else cleanup_loop rest (cleaned @ [(line_no, line)]))"

definition cleanup_region_spacing :: "fline list \<Rightarrow> fline list" where
  "cleanup_region_spacing formatted_lines = cleanup_loop formatted_lines []"

section \<open>Class statements\<close>

text \<open>
  \<open>class_statement.py\<close>.  A parse tree node is a \<open>Tree\<close> with its kind tag \<open>data\<close>, its
  \<open>children\<close>, its \<open>line\<close> and its \<open>end_line\<close>, or a \<open>Token\<close> with its type and its
  \<open>value\<close>.  Reading \<open>.value\<close> of a tree, or \<open>.data\<close> or \<open>.children\<close> of a token,
  raises \<open>AttributeError\<close>; an index out of range raises \<open>IndexError\<close>; a key that the
  handler table lacks raises \<open>KeyError\<close>; a local variable read before any branch has
  assigned it raises \<open>UnboundLocalError\<close>.  The handlers read the line of a statement
  whose children they read as well, so a token in the place of a statement ends in
  \<open>AttributeError\<close> in any case and the model keeps no line for a token.  An \<open>Outcome\<close>
  is the pair of the formatted lines and the last processed line number.

  The context class, the expression formatter, the simple-statement and variable
  renderers, the block driver and the function-body dispatcher are not among the sources.
  The context is a record of the fields this file reads or that a child context changes,
  and the other collaborators are the fields of the parameter \<open>ext\<close>.  The block driver
  calls its statement formatter on the statements it is given, so \<open>format_block\<close>
  receives each statement paired with the formatter applied to it.

  \<open>_format_class_statement\<close> and \<open>_format_func_statement\<close> are \<open>format_class_def\<close> and
  \<open>format_func_def\<close> here, after their tags, since the dispatcher and the function-body
  dispatcher bear the same names without the underscore.
\<close>

datatype node =
    Tree string "node list" nat nat
  | Token string string

type_synonym outcome = "fline list \<times> nat"

type_synonym result = "error + outcome"

record expression_context =
  prefix_string :: string
  prefix_line :: nat
  suffix_string :: string
  suffix_line :: nat

record formatter_context =
  indent_string :: string
  single_indent_string :: string
  previously_processed_line_number :: nat
  max_line_length :: nat

record collaborators =
  format_simple_statement :: "string \<Rightarrow> node \<Rightarrow> formatter_context \<Rightarrow> result"
  format_var_statement :: "node \<Rightarrow> formatter_context \<Rightarrow> result"
  format_expression :: "node \<Rightarrow> expression_context \<Rightarrow> formatter_context \<Rightarrow> result"
  format_concrete_expression :: "node \<Rightarrow> expression_context \<Rightarrow> formatter_context \<Rightarrow> result"
  format_func_statement :: "node \<Rightarrow> formatter_context \<Rightarrow> result"
  format_block :: "(node \<times> (formatter_context \<Rightarrow> result)) list \<Rightarrow> formatter_context \<Rightarrow> result"
  expression_to_str :: "node \<Rightarrow> string"
  create_child_context :: "formatter_context \<Rightarrow> nat \<Rightarrow> formatter_context"

text \<open>
  \<open>bind\<close> runs the next step unless an exception was raised.  \<open>children_of\<close>,
  \<open>value_of\<close>, \<open>line_of\<close> and \<open>end_line_of\<close> read an attribute; \<open>item xs i\<close> is \<open>xs[i]\<close> for
  an index from zero on and \<open>last_item xs\<close> is \<open>xs[-1]\<close>.
\<close>

definition bind :: "error + 'a \<Rightarrow> ('a \<Rightarrow> error + 'b) \<Rightarrow> error + 'b" where
  "bind m f = (case m of Inl e \<Rightarrow> Inl e | Inr x \<Rightarrow> f x)"

fun children_of :: "node \<Rightarrow> error + node list" where
  "children_of (Tree d ch ln eln) = Inr ch"
| "children_of (Token ty v) = Inl AttributeError"

fun value_of :: "node \<Rightarrow> error + string" where
  "value_of (Token ty v) = Inr v"
| "value_of (Tree d ch ln eln) = Inl AttributeError"

fun line_of :: "node \<Rightarrow> error + nat" where
  "line_of (Tree d ch ln eln) = Inr ln"
| "line_of (Token ty v) = Inl AttributeError"

fun end_line_of :: "node \<Rightarrow> error + nat" where
  "end_line_of (Tree d ch ln eln) = Inr eln"
| "end_line_of (Token ty v) = Inl AttributeError"

definition item :: "'a list \<Rightarrow> nat \<Rightarrow> error + 'a" where
  "item xs i = (if i < length xs then Inr (xs ! i) else Inl IndexError)"

definition last_item :: "'a list \<Rightarrow> error + 'a" where
  "last_item xs = (if xs = [] then Inl IndexError else Inr (last xs))"

text \<open>
  The handlers that call no handler in turn.  A step that Python evaluates earlier stands
  earlier, so the exception raised first is the one returned.  In
  \<open>_format_const_statement\<close> no branch assigns \<open>prefix\<close> unless the statement has four,
  five or six children.
\<close>

definition format_const_statement :: "collaborators \<Rightarrow> node \<Rightarrow> formatter_context \<Rightarrow> result" where
  "format_const_statement ext statement ctx =
     bind (children_of statement) (\<lambda>ch.
     bind (if length ch = 4 then
             bind (value_of (ch ! 1)) (\<lambda>name. Inr (''const '' @ name @ '' = ''))
           else if length ch = 5 then
             bind (value_of (ch ! 1)) (\<lambda>name. Inr (''const '' @ name @ '' := ''))
           else if length ch = 6 then
             bind (value_of (ch ! 1)) (\<lambda>name.
             bind (value_of (ch ! 3)) (\<lambda>ty. Inr (''const '' @ name @ '': '' @ ty @ '' = '')))
           else Inl UnboundLocalError) (\<lambda>prefix_str.
     bind (line_of statement) (\<lambda>ln.
     bind (end_line_of statement) (\<lambda>eln.
     bind (last_item ch) (\<lambda>value_expr.
       format_expression ext value_expr
         \<lparr>prefix_string = prefix_str, prefix_line = ln, suffix_string = [], suffix_line = eln\<rparr>
         ctx)))))"

definition format_signal_statement :: "collaborators \<Rightarrow> node \<Rightarrow> formatter_context \<Rightarrow> result" where
  "format_signal_statement ext statement ctx =
     bind (children_of statement) (\<lambda>ch.
     bind (if length ch = 1 then Inr True
           else bind (item ch 1) (\<lambda>args. bind (children_of args) (\<lambda>as. Inr (length as = 0))))
       (\<lambda>simple.
     bind (item ch 0) (\<lambda>c0.
     bind (value_of c0) (\<lambda>name.
       if simple then format_simple_statement ext (''signal '' @ name) statement ctx
       else
         bind (line_of statement) (\<lambda>ln.
         bind (end_line_of statement) (\<lambda>eln.
         bind (last_item ch) (\<lambda>signal_args.
           format_concrete_expression ext signal_args
             \<lparr>prefix_string = ''signal '' @ name, prefix_line = ln,
              suffix_string = [], suffix_line = eln\<rparr>
             ctx)))))))"

definition format_classname_statement :: "collaborators \<Rightarrow> node \<Rightarrow> formatter_context \<Rightarrow> result" where
  "format_classname_statement ext statement ctx =
     bind (line_of statement) (\<lambda>ln.
     bind (children_of statement) (\<lambda>ch.
     bind (item ch 0) (\<lambda>c0.
     bind (value_of c0) (\<lambda>name.
       Inr ([(Some ln, indent_string ctx @ ''class_name '' @ name)], ln)))))"

definition format_extends_statement :: "collaborators \<Rightarrow> node \<Rightarrow> formatter_context \<Rightarrow> result" where
  "format_extends_statement ext statement ctx =
     bind (line_of statement) (\<lambda>ln.
     bind (children_of statement) (\<lambda>ch.
       let optional_attributes =
             (if length ch = 1 then []
              else ''.'' @ py_join ''.'' (map (expression_to_str ext) (drop 1 ch)))
       in bind (item ch 0) (\<lambda>c0.
            Inr ([(Some ln,
                   indent_string ctx @ ''extends '' @ expression_to_str ext c0 @ optional_attributes)],
                 ln))))"

definition format_classname_extends_statement :: "collaborators \<Rightarrow> node \<Rightarrow> formatter_context \<Rightarrow> result" where
  "format_classname_extends_statement ext statement ctx =
     bind (line_of statement) (\<lambda>ln.
     bind (children_of statement) (\<lambda>ch.
       let extendee_pos = 2 + 1;
           optional_attributes =
             (if length ch \<le> extendee_pos + 1 then []
              else ''.'' @ py_join ''.'' (map (expression_to_str ext) (drop (extendee_pos + 1) ch)))
       in bind (item ch 1) (\<lambda>c1.
          bind (value_of c1) (\<lambda>name.
          bind (item ch extendee_pos) (\<lambda>extendee.
            Inr ([(Some ln,
                   indent_string ctx @ ''class_name '' @ name @ '' extends ''
                     @ expression_to_str ext extendee @ optional_attributes)],
                 ln))))))"

definition format_func_header :: "collaborators \<Rightarrow> node \<Rightarrow> formatter_context \<Rightarrow> result" where
  "format_func_header ext statement ctx =
     bind (children_of statement) (\<lambda>ch.
     bind (item ch 0) (\<lambda>c0.
     bind (value_of c0) (\<lambda>name.
       let has_return_type = (length ch > 2) in
     bind (line_of statement) (\<lambda>ln.
     bind (if has_return_type then
             bind (value_of (ch ! 2)) (\<lambda>ty. Inr ('' -> '' @ ty @ '':''))
           else Inr '':'') (\<lambda>suffix.
     bind (end_line_of statement) (\<lambda>eln.
     bind (item ch 1) (\<lambda>func_args.
       format_concrete_expression ext func_args
         \<lparr>prefix_string = ''func '' @ name, prefix_line = ln,
          suffix_string = suffix, suffix_line = eln\<rparr>
         ctx)))))))"

definition format_func_def :: "collaborators \<Rightarrow> node \<Rightarrow> formatter_context \<Rightarrow> result" where
  "format_func_def ext statement ctx =
     bind (children_of statement) (\<lambda>ch.
     bind (item ch 0) (\<lambda>func_header.
     bind (format_func_header ext func_header ctx) (\<lambda>(formatted_lines, last_processed_line_no).
     bind (format_block ext (map (\<lambda>c. (c, format_func_statement ext c)) (drop 1 ch))
             (create_child_context ext ctx last_processed_line_no))
       (\<lambda>(func_lines, last_processed_line_no).
          Inr (formatted_lines @ func_lines, last_processed_line_no)))))"

definition format_enum_statement :: "collaborators \<Rightarrow> node \<Rightarrow> formatter_context \<Rightarrow> result" where
  "format_enum_statement ext statement ctx =
     bind (children_of statement) (\<lambda>ch.
     bind (item ch 0) (\<lambda>actual_enum.
     bind (children_of actual_enum) (\<lambda>ech.
     bind (if length ech = 2 then
             bind (value_of (ech ! 0)) (\<lambda>name. Inr (''enum '' @ name @ '' ''))
           else Inr ''enum '') (\<lambda>prefix_str.
     bind (line_of statement) (\<lambda>ln.
     bind (end_line_of statement) (\<lambda>eln.
     bind (last_item ech) (\<lambda>enum_body.
       format_concrete_expression ext enum_body
         \<lparr>prefix_string = prefix_str, prefix_line = ln, suffix_string = [], suffix_line = eln\<rparr>
         ctx)))))))"

text \<open>
  \<open>format_class_statement\<close>.  The dictionary \<open>handlers\<close> binds each tag to one handler;
  the handlers are named by the constructors of \<open>handler\<close>, and \<open>call_handler\<close> applies the
  one that was looked up.  The static-function handler and the class handler call the
  dispatcher again, on a child, so the four functions are defined together; the
  recursion ends because a child is smaller than its parent.
\<close>

datatype handler =
    PassStmt | EnumStmt | SignalStmt | ExtendsStmt | ClassnameStmt | ClassnameExtendsStmt
  | ClassVarStmt | ConstStmt | ClassDef | FuncDef | StaticFuncDef

definition handlers :: "(string \<times> handler) list" where
  "handlers =
     [(''pass_stmt'', PassStmt),
      (''enum_stmt'', EnumStmt),
      (''signal_stmt'', SignalStmt),
      (''extends_stmt'', ExtendsStmt),
      (''classname_stmt'', ClassnameStmt),
      (''classname_extends_stmt'', ClassnameExtendsStmt),
      (''class_var_stmt'', ClassVarStmt),
      (''const_stmt'', ConstStmt),
      (''class_def'', ClassDef),
      (''func_def'', FuncDef),
      (''static_func_def'', StaticFuncDef)]"

lemma size_in_children: "c \<in> set cs \<Longrightarrow> size c < Suc (size_list size cs)"
  by (induction cs) auto

function (sequential) format_class_statement :: "collaborators \<Rightarrow> node \<Rightarrow> formatter_context \<Rightarrow> result"
  and call_handler :: "collaborators \<Rightarrow> handler \<Rightarrow> node \<Rightarrow> formatter_context \<Rightarrow> result"
  and format_child_and_prepend_to_outcome ::
    "collaborators \<Rightarrow> node \<Rightarrow> formatter_context \<Rightarrow> string \<Rightarrow> result"
  and format_class_def :: "collaborators \<Rightarrow> node \<Rightarrow> formatter_context \<Rightarrow> result"
where
  "format_class_statement ext (Token ty v) ctx = Inl AttributeError"
| "format_class_statement ext (Tree d ch ln eln) ctx =
     (case map_of handlers d of
        None \<Rightarrow> Inl (KeyError d)
      | Some h \<Rightarrow> call_handler ext h (Tree d ch ln eln) ctx)"
| "call_handler ext PassStmt statement ctx = format_simple_statement ext ''pass'' statement ctx"
| "call_handler ext EnumStmt statement ctx = format_enum_statement ext statement ctx"
| "call_handler ext SignalStmt statement ctx = format_signal_statement ext statement ctx"
| "call_handler ext ExtendsStmt statement ctx = format_extends_statement ext statement ctx"
| "call_handler ext ClassnameStmt statement ctx = format_classname_statement ext statement ctx"
| "call_handler ext ClassnameExtendsStmt statement ctx =
     format_classname_extends_statement ext statement ctx"
| "call_handler ext ClassVarStmt statement ctx = format_var_statement ext statement ctx"
| "call_handler ext ConstStmt statement ctx = format_const_statement ext statement ctx"
| "call_handler ext ClassDef statement ctx = format_class_def ext statement ctx"
| "call_handler ext FuncDef statement ctx = format_func_def ext statement ctx"
| "call_handler ext StaticFuncDef statement ctx =
     format_child_and_prepend_to_outcome ext statement ctx ''static ''"
| "format_child_and_prepend_to_outcome ext (Token ty v) ctx prefix_str = Inl AttributeError"
| "format_child_and_prepend_to_outcome ext (Tree d [] ln eln) ctx prefix_str = Inl IndexError"
| "format_child_and_prepend_to_outcome ext (Tree d (child # others) ln eln) ctx prefix_str =
     (case format_class_statement ext child ctx of
        Inl e \<Rightarrow> Inl e
      | Inr (lines, last_processed_line) \<Rightarrow>
          (case lines of
             [] \<Rightarrow> Inl IndexError
           | (first_line_no, first_line) # tail_lines \<Rightarrow>
               Inr ((first_line_no, indent_string ctx @ prefix_str @ strip first_line) # tail_lines,
                    last_processed_line)))"
| "format_class_def ext (Token ty v) ctx = Inl AttributeError"
| "format_class_def ext (Tree d [] ln eln) ctx = Inl IndexError"
| "format_class_def ext (Tree d (name_token # body) ln eln) ctx =
     (case value_of name_token of
        Inl e \<Rightarrow> Inl e
      | Inr name \<Rightarrow>
          (case format_block ext
                  (map (\<lambda>c. (c, \<lambda>child_ctx. format_class_statement ext c child_ctx)) body)
                  (create_child_context ext ctx ln) of
             Inl e \<Rightarrow> Inl e
           | Inr (class_lines, last_processed_line_no) \<Rightarrow>
               Inr ((Some ln, indent_string ctx @ ''class '' @ name @ '':'') # class_lines,
                    last_processed_line_no)))"
  by pat_completeness auto
termination
  by (relation "measure (\<lambda>x. case x of
        Inl (Inl (ext, statement, ctx)) \<Rightarrow> 3 * size statement + 2
      | Inl (Inr (ext, h, statement, ctx)) \<Rightarrow> 3 * size statement + 1
      | Inr (Inl (ext, statement, ctx, prefix_str)) \<Rightarrow> 3 * size statement
      | Inr (Inr (ext, statement, ctx)) \<Rightarrow> 3 * size statement)")
    (auto dest: size_in_children)

text \<open>
  Modelled from the spec: the collaborators of the dispatcher (the expression formatter,
  the simple-statement and variable renderers, the block driver, the function-body
  dispatcher and the context's child derivation) are outside the sources.  This instance
  follows their contracts in the simplest way and serves the evaluations at concrete
  statements: an expression is rendered on one line as indent, prefix, text and suffix;
  a block renders its statements in turn at the child context; a child context is one
  indent unit deeper.
\<close>

fun sample_to_str :: "node \<Rightarrow> string" where
  "sample_to_str (Token ty v) = v"
| "sample_to_str (Tree d ch ln eln) = ''('' @ py_join '', '' (map sample_to_str ch) @ '')''"

definition sample_expression :: "node \<Rightarrow> expression_context \<Rightarrow> formatter_context \<Rightarrow> result" where
  "sample_expression expr ectx ctx =
     Inr ([(Some (prefix_line ectx),
            indent_string ctx @ prefix_string ectx @ sample_to_str expr @ suffix_string ectx)],
          suffix_line ectx)"

definition sample_simple_statement :: "string \<Rightarrow> node \<Rightarrow> formatter_context \<Rightarrow> result" where
  "sample_simple_statement text statement ctx =
     bind (line_of statement) (\<lambda>ln. Inr ([(Some ln, indent_string ctx @ text)], ln))"

definition sample_func_statement :: "node \<Rightarrow> formatter_context \<Rightarrow> result" where
  "sample_func_statement statement ctx =
     (case statement of
        Token ty v \<Rightarrow> Inl AttributeError
      | Tree d ch ln eln \<Rightarrow>
          if d = ''pass_stmt'' then sample_simple_statement ''pass'' statement ctx
          else Inl (KeyError d))"

fun sample_block :: "(node \<times> (formatter_context \<Rightarrow> result)) list \<Rightarrow> formatter_context \<Rightarrow> result" where
  "sample_block [] ctx = Inr ([], previously_processed_line_number ctx)"
| "sample_block ((statement, render) # rest) ctx =
     bind (render ctx) (\<lambda>(lines, last_no).
     bind (sample_block rest (ctx\<lparr>previously_processed_line_number := last_no\<rparr>))
       (\<lambda>(more_lines, final_no). Inr (lines @ more_lines, final_no)))"

definition sample_child_context :: "formatter_context \<Rightarrow> nat \<Rightarrow> formatter_context" where
  "sample_child_context ctx n =
     ctx\<lparr>indent_string := indent_string ctx @ single_indent_string ctx,
         previously_processed_line_number := n\<rparr>"

definition sample_collaborators :: collaborators where
  "sample_collaborators =
     \<lparr>format_simple_statement = sample_simple_statement,
      format_var_statement = sample_simple_statement ''var'',
      format_expression = sample_expression,
      format_concrete_expression = sample_expression,
      format_func_statement = sample_func_statement,
      format_block = sample_block,
      expression_to_str = sample_to_str,
      create_child_context = sample_child_context\<rparr>"

definition sample_context :: "string \<Rightarrow> formatter_context" where
  "sample_context indent =
     \<lparr>indent_string = indent, single_indent_string = ''    '',
      previously_processed_line_number = 0, max_line_length = 100\<rparr>"

definition static_foo_child :: node where
  "static_foo_child =
     Tree ''func_def''
       [Tree ''func_header'' [Token ''NAME'' ''foo'', Tree ''func_args'' [] 1 1] 1 1,
        Tree ''pass_stmt'' [] 2 2] 1 2"

section \<open>Notions used in the statements\<close>

text \<open>
  The result of the inline pass, line by line from the head: a numbered line is given the
  slots from its number up to the cursor left by the lines after it.
\<close>

fun inline_fwd :: "nat \<Rightarrow> fline list \<Rightarrow> comment_table \<Rightarrow> fline list" where
  "inline_fwd off [] tbl = []"
| "inline_fwd off ((None, line) # ls) tbl = (None, line) # inline_fwd off ls tbl"
| "inline_fwd off ((Some n, line) # ls) tbl =
     (Some n, attach off line (somes (drop n (take (inline_cursor ls (length tbl)) tbl))))
       # inline_fwd off ls tbl"

text \<open>The slots each line claims in the inline pass, line by line in document order.\<close>

fun inline_claimed :: "fline list \<Rightarrow> comment_table \<Rightarrow> string option list list" where
  "inline_claimed [] tbl = []"
| "inline_claimed ((None, line) # ls) tbl = [] # inline_claimed ls tbl"
| "inline_claimed ((Some n, line) # ls) tbl =
     drop n (take (inline_cursor ls (length tbl)) tbl) # inline_claimed ls tbl"

text \<open>
  A blank line, a region-close line and a region-open line, as the passes test them on the
  stripped text; \<open>blank_before_endregion\<close> says that some region-close line of the list
  comes right after a blank line.
\<close>

definition is_blank :: "fline \<Rightarrow> bool" where
  "is_blank l = (strip (snd l) = [])"

definition is_endregion :: "fline \<Rightarrow> bool" where
  "is_endregion l = startswith (strip (snd l)) ''#endregion''"

definition is_region :: "fline \<Rightarrow> bool" where
  "is_region l = startswith (strip (snd l)) ''#region''"

fun blank_before_endregion :: "fline list \<Rightarrow> bool" where
  "blank_before_endregion (x # y # zs) =
     ((is_blank x \<and> is_endregion y) \<or> blank_before_endregion (y # zs))"
| "blank_before_endregion zs = False"

text \<open>
  What the inline pass may do to one line: keep its number; leave a line with no number
  as it is; extend the text of a numbered line.
\<close>

definition frame_ok :: "fline \<Rightarrow> fline \<Rightarrow> bool" where
  "frame_ok a b = (fst b = fst a \<and> (if fst a = None then b = a else prefix (snd a) (snd b)))"

text \<open>
  \<open>short_gap t\<close>: the lines \<open>t\<close> after a region-close line start with fewer than two blank
  lines followed by a region-open line.  \<open>gap_short_before ls rest\<close>: some region-close
  line of \<open>ls\<close> has such a short gap in \<open>ls\<close> continued by \<open>rest\<close>; \<open>gap_short ls\<close> is the
  case of a list that ends there.
\<close>

definition short_gap :: "fline list \<Rightarrow> bool" where
  "short_gap t =
     (case dropWhile is_blank t of
        [] \<Rightarrow> False
      | r # _ \<Rightarrow> is_region r \<and> length (takeWhile is_blank t) < 2)"

fun gap_short_before :: "fline list \<Rightarrow> fline list \<Rightarrow> bool" where
  "gap_short_before [] rest = False"
| "gap_short_before (x # xs) rest =
     ((is_endregion x \<and> short_gap (xs @ rest)) \<or> gap_short_before xs rest)"

definition gap_short :: "fline list \<Rightarrow> bool" where
  "gap_short ls = gap_short_before ls []"

text \<open>
  The batches the standalone pass claims, with the indentation each is rendered at, in the
  order of the scan (over the reversed lines).  \<open>following\<close> is the text of the line
  scanned just before, which is \<open>postprocessed_lines[-1][1]\<close>.
\<close>

fun standalone_claimed ::
  "(string \<Rightarrow> string option) \<Rightarrow> fline list \<Rightarrow> comment_table \<Rightarrow> bool \<Rightarrow> nat option \<Rightarrow> string
     \<Rightarrow> (string \<times> string option list) list" where
  "standalone_claimed re [] remaining inside last_no following = []"
| "standalone_claimed re ((None, line) # rest) remaining inside last_no following =
     standalone_claimed re rest remaining False last_no line"
| "standalone_claimed re ((Some line_no, line) # rest) remaining inside last_no following =
     (if \<not> inside then standalone_claimed re rest remaining True (Some line_no) line
      else (get_greater_indent re line following, py_slice remaining line_no last_no)
             # standalone_claimed re rest (take line_no remaining) inside last_no line)"

text \<open>
  The lines a claimed batch is rendered as (one per comment, at the batch's indentation),
  the lines of a list that are not blank, and whether two numbered lines stand next to
  each other.
\<close>

definition rendered :: "string \<times> string option list \<Rightarrow> fline list" where
  "rendered b = map (\<lambda>c. (None, fst b @ c)) (somes (snd b))"

definition nonblank :: "fline list \<Rightarrow> fline list" where
  "nonblank ls = filter (\<lambda>l. \<not> is_blank l) ls"

fun adjacent_numbered :: "fline list \<Rightarrow> bool" where
  "adjacent_numbered (x # y # zs) = ((fst x \<noteq> None \<and> fst y \<noteq> None) \<or> adjacent_numbered (y # zs))"
| "adjacent_numbered zs = False"

section \<open>The inline-comment pass: the scan in closed form\<close>

lemma py_join_attach: "py_join (comment_offset off) (line # cs) = attach off line cs"
  by (induction cs arbitrary: line) (simp_all add: attach_def)

lemma inline_loop_append:
  "inline_loop off (xs @ ys) remaining post =
     (case inline_loop off xs remaining post of (r, p) \<Rightarrow> inline_loop off ys r p)"
  by (induction off xs remaining post rule: inline_loop.induct) (simp_all add: Let_def)

lemma inline_cursor_le: "inline_cursor ls len \<le> len"
  by (induction ls len rule: inline_cursor.induct) (simp_all add: min.coboundedI2)

lemma inline_loop_rev:
  "inline_loop off (rev ls) tbl [] =
     (take (inline_cursor ls (length tbl)) tbl, rev (inline_fwd off ls tbl))"
proof (induction ls)
  case Nil
  then show ?case by simp
next
  case (Cons x ls)
  obtain no line where x: "x = (no, line)" by (cases x)
  show ?case
  proof (cases no)
    case None
    with x Cons show ?thesis by (simp add: inline_loop_append)
  next
    case (Some n)
    with x Cons show ?thesis
      by (simp add: inline_loop_append Let_def py_join_attach attach_def min.commute)
  qed
qed

lemma add_inline_fwd: "add_inline_comments off ls tbl = inline_fwd off ls tbl"
  by (simp add: add_inline_comments_def inline_loop_rev)

lemma inline_cursor_append:
  "inline_cursor (pre @ post) len = inline_cursor pre (inline_cursor post len)"
  by (induction pre len rule: inline_cursor.induct) simp_all

lemma inline_fwd_append:
  "inline_fwd off (pre @ post) tbl =
     inline_fwd off pre (take (inline_cursor post (length tbl)) tbl) @ inline_fwd off post tbl"
proof (induction pre)
  case Nil
  then show ?case by simp
next
  case (Cons x pre)
  obtain no line where x: "x = (no, line)" by (cases x)
  let ?c = "inline_cursor post (length tbl)"
  have c: "?c \<le> length tbl" by (rule inline_cursor_le)
  show ?case
  proof (cases no)
    case None
    with x Cons show ?thesis by simp
  next
    case (Some n)
    have "inline_cursor pre ?c \<le> ?c" by (rule inline_cursor_le)
    then have "take (inline_cursor pre ?c) (take ?c tbl) = take (inline_cursor pre ?c) tbl"
      by (simp add: min_absorb1)
    with Some x Cons c show ?thesis
      by (simp add: inline_cursor_append min_absorb1)
  qed
qed

text \<open>
  Claim C6.  In the inline pass the cursor starts at the length of the table.  A line
  with source number \<open>n\<close> is given exactly the slots with indices from \<open>n\<close> up to the
  cursor left by the lines after it; the comments among them are appended to its text in
  index order, each after the fixed offset; the lines before it see the table cut at
  the smaller of \<open>n\<close> and that cursor.  A line with no number is returned as it is and
  leaves the cursor where it was.  The cursor is the length of \<open>remaining_comments\<close> in
  the loop.
\<close>

theorem inline_pass_claims:
  "inline_cursor [] (length tbl) = length tbl \<and>
   fst (inline_loop off (rev post) tbl []) = take (inline_cursor post (length tbl)) tbl \<and>
   add_inline_comments off (pre @ (Some n, line) # post) tbl =
     add_inline_comments off pre (take (min n (inline_cursor post (length tbl))) tbl)
       @ (Some n, attach off line (somes (drop n (take (inline_cursor post (length tbl)) tbl))))
       # add_inline_comments off post tbl \<and>
   inline_cursor ((Some n, line) # post) (length tbl) = min n (inline_cursor post (length tbl)) \<and>
   add_inline_comments off (pre @ (None, line) # post) tbl =
     add_inline_comments off pre (take (inline_cursor post (length tbl)) tbl)
       @ (None, line) # add_inline_comments off post tbl \<and>
   inline_cursor ((None, line) # post) (length tbl) = inline_cursor post (length tbl)"
  by (simp add: add_inline_fwd inline_fwd_append inline_loop_rev)

text \<open>The scan on three lines and a table of five slots.\<close>

theorem inline_pass_claims_witness:
  "add_inline_comments 2
     ([(Some 1, ''var a = 1'')] @ (Some 2, ''var b = ['') # [(Some 4, ''    2]'')])
     [None, Some ''# one'', Some ''# two'', Some ''# three'', None] =
   [(Some 1, ''var a = 1  # one''), (Some 2, ''var b = [  # two  # three''), (Some 4, ''    2]'')]"
  using inline_pass_claims [where off = 2 and pre = "[(Some 1, ''var a = 1'')]" and n = 2
      and line = "''var b = [''" and post = "[(Some 4, ''    2]'')]"
      and tbl = "[None, Some ''# one'', Some ''# two'', Some ''# three'', None]"]
  by (simp add: add_inline_comments_def comment_offset_def attach_def numeral_2_eq_2)

lemma inline_fwd_frame: "list_all2 frame_ok ls (inline_fwd off ls tbl)"
  by (induction off ls tbl rule: inline_fwd.induct) (simp_all add: frame_ok_def attach_def)

text \<open>
  Claim C10.  The inline pass returns as many lines as it is given, in the same order and
  with the same source numbers; a line with no number is returned unchanged, and the text
  of every line is a prefix of the text returned for it.
\<close>

theorem inline_pass_frame:
  "length (add_inline_comments off ls tbl) = length ls \<and>
   map fst (add_inline_comments off ls tbl) = map fst ls \<and>
   (\<forall>i<length ls. fst (ls ! i) = None \<longrightarrow> add_inline_comments off ls tbl ! i = ls ! i) \<and>
   (\<forall>i<length ls. prefix (snd (ls ! i)) (snd (add_inline_comments off ls tbl ! i)))"
proof -
  let ?out = "add_inline_comments off ls tbl"
  have a: "list_all2 frame_ok ls ?out"
    by (simp add: add_inline_fwd inline_fwd_frame)
  then have len: "length ?out = length ls" by (simp add: list_all2_lengthD)
  have nth: "frame_ok (ls ! i) (?out ! i)" if "i < length ls" for i
    using a that by (rule list_all2_nthD)
  have "map fst ?out = map fst ls"
    using len nth by (intro nth_equalityI) (simp_all add: frame_ok_def)
  moreover have "\<forall>i<length ls. fst (ls ! i) = None \<longrightarrow> ?out ! i = ls ! i"
    using nth by (auto simp: frame_ok_def)
  moreover have "\<forall>i<length ls. prefix (snd (ls ! i)) (snd (?out ! i))"
  proof (intro allI impI)
    fix i assume "i < length ls"
    from nth [OF this] show "prefix (snd (ls ! i)) (snd (?out ! i))"
      by (cases "fst (ls ! i) = None") (simp_all add: frame_ok_def)
  qed
  ultimately show ?thesis using len by blast
qed

text \<open>The frame property on two numbered lines around an unnumbered one.\<close>

theorem inline_pass_frame_witness:
  "length (add_inline_comments 2 [(Some 1, ''var a = 1''), (None, ''''), (Some 3, ''var b = 2'')]
     [None, Some ''# one'', None, Some ''# two'']) = 3
   \<and> add_inline_comments 2 [(Some 1, ''var a = 1''), (None, ''''), (Some 3, ''var b = 2'')]
     [None, Some ''# one'', None, Some ''# two''] ! 1 = (None, '''')
   \<and> prefix ''var a = 1'' (snd (add_inline_comments 2 [(Some 1, ''var a = 1''), (None, ''''), (Some 3, ''var b = 2'')]
     [None, Some ''# one'', None, Some ''# two''] ! 0))
   \<and> add_inline_comments 2 [(Some 1, ''var a = 1''), (None, ''''), (Some 3, ''var b = 2'')]
     [None, Some ''# one'', None, Some ''# two''] =
   [(Some 1, ''var a = 1  # one''), (None, ''''), (Some 3, ''var b = 2  # two'')]"
  using inline_pass_frame [of 2 "[(Some 1, ''var a = 1''), (None, ''''), (Some 3, ''var b = 2'')]"
     "[None, Some ''# one'', None, Some ''# two'']"]
  by (simp add: add_inline_comments_def comment_offset_def numeral_2_eq_2)

section \<open>The standalone-comment pass at region markers\<close>

text \<open>
  Claim C3 says that a claimed comment that starts with the region-open marker gets one
  blank line right before it in the returned lines.  The buffer is in reverse document
  order, so the blank line appended before the comment comes out right after it: for the
  comment \<open>#region X\<close> on source line 2, inside an array literal that spans the lines 1 to
  4, the pass returns the comment followed by the blank line.
\<close>

theorem standalone_region_open_blank_after:
  "add_standalone_comments space_indent
     [(Some 1, ''var a = [''), (Some 3, ''    1,''), (Some 4, '']'')]
     [None, None, Some ''#region X'', None, None] =
   Inr [(Some 1, ''var a = [''), (None, ''    #region X''), (None, ''''),
        (Some 3, ''    1,''), (Some 4, '']'')]"
  by (simp add: add_standalone_comments_def py_slice_def get_greater_indent_def space_indent_def
      strip_def py_isspace_def startswith_def)

text \<open>
  Claim C4 says that a claimed comment that starts with the region-close marker loses the
  blank lines right before it and, when the next comment of the batch in document order
  is a region-open one, gets exactly two blank lines after it.  On the reversed buffer the
  pass removes the blank lines that follow the comment in document order, looks at the
  comment that precedes it, and puts the two blank lines before it: for the batch
  \<open>#region A\<close>, \<open>#endregion\<close>, \<open>#region B\<close> on the source lines 2 to 4 the region-close
  line comes out after three blank lines and right before \<open>#region B\<close>.
\<close>

theorem standalone_region_close_blanks_misplaced:
  "add_standalone_comments space_indent
     [(Some 1, ''var a = [''), (Some 5, ''    1,''), (Some 6, '']'')]
     [None, None, Some ''#region A'', Some ''#endregion'', Some ''#region B'', None, None] =
   Inr [(Some 1, ''var a = [''), (None, ''    #region A''), (None, ''''), (None, ''''), (None, ''''),
        (None, ''    #endregion''), (None, ''    #region B''), (None, ''''),
        (Some 5, ''    1,''), (Some 6, '']'')]"
  by (simp add: add_standalone_comments_def py_slice_def get_greater_indent_def space_indent_def
      strip_def py_isspace_def startswith_def region_follows_def pop_blank.simps)

section \<open>The region-spacing cleanup\<close>

lemma pop_blank_rev: "pop_blank ls = rev (dropWhile is_blank (rev ls))"
proof (induction ls rule: pop_blank.induct)
  case (1 ls)
  show ?case
  proof (cases "ls \<noteq> [] \<and> strip (snd (last ls)) = []")
    case True
    then obtain xs x where ls: "ls = xs @ [x]" by (metis append_butlast_last_id)
    with True 1 show ?thesis
      by (subst pop_blank.simps) (simp add: is_blank_def [abs_def])
  next
    case False
    then show ?thesis
      by (subst pop_blank.simps) (cases ls rule: rev_cases; auto simp: is_blank_def [abs_def])
  qed
qed

lemma pop_blank_split: "\<exists>bs. ls = pop_blank ls @ bs \<and> (\<forall>b\<in>set bs. is_blank b)"
proof -
  have "rev ls = takeWhile is_blank (rev ls) @ dropWhile is_blank (rev ls)" by simp
  then have "ls = rev (dropWhile is_blank (rev ls)) @ rev (takeWhile is_blank (rev ls))"
    by (metis rev_append rev_rev_ident)
  moreover have "\<forall>b\<in>set (rev (takeWhile is_blank (rev ls))). is_blank b"
    by (auto dest: set_takeWhileD)
  ultimately show ?thesis unfolding pop_blank_rev by blast
qed

lemma pop_blank_last: "pop_blank ls \<noteq> [] \<Longrightarrow> \<not> is_blank (last (pop_blank ls))"
  unfolding pop_blank_rev
  by (metis (full_types) dropWhile_eq_Nil_conv hd_dropWhile last_rev rev_is_Nil_conv)

lemma pop_blank_keeps:
  assumes "\<not> is_blank r"
  shows "\<exists>bs'. pop_blank (acc @ r # bs) = acc @ r # bs'"
proof -
  have "dropWhile is_blank (rev bs @ r # rev acc) =
          dropWhile is_blank (rev bs) @ r # rev acc"
  proof (cases "\<forall>b\<in>set (rev bs). is_blank b")
    case True
    then have "dropWhile is_blank (rev bs) = []" by simp
    moreover from True have "dropWhile is_blank (rev bs @ r # rev acc) = dropWhile is_blank (r # rev acc)"
      by (intro dropWhile_append2) simp
    ultimately show ?thesis using assms by simp
  next
    case False
    then obtain x where "x \<in> set (rev bs)" "\<not> is_blank x" by blast
    then show ?thesis by (rule dropWhile_append1)
  qed
  then show ?thesis by (simp add: pop_blank_rev)
qed

lemma region_not_blank: "is_region l \<Longrightarrow> \<not> is_blank l"
  by (auto simp: is_region_def is_blank_def startswith_def)

lemma endregion_not_blank: "is_endregion l \<Longrightarrow> \<not> is_blank l"
  by (auto simp: is_endregion_def is_blank_def startswith_def)

lemma region_not_endregion:
  assumes "is_region l"
  shows "\<not> is_endregion l"
proof
  assume "is_endregion l"
  then have "take (length ''#endregion'') (strip (snd l)) = ''#endregion''"
    unfolding is_endregion_def startswith_def .
  moreover have "length ''#endregion'' = 10" by simp
  ultimately have "take 10 (strip (snd l)) = ''#endregion''" by (simp only:)
  then have "take 7 (take 10 (strip (snd l))) = take 7 ''#endregion''" by (simp only:)
  then have e: "take 7 (strip (snd l)) = ''#endreg''" by simp
  from assms have "take (length ''#region'') (strip (snd l)) = ''#region''"
    unfolding is_region_def startswith_def .
  moreover have "length ''#region'' = 7" by simp
  ultimately have "take 7 (strip (snd l)) = ''#region''" by (simp only:)
  with e show False by simp
qed


lemma bbe_append:
  "blank_before_endregion (xs @ ys) =
     (blank_before_endregion xs \<or> blank_before_endregion ys \<or>
      (xs \<noteq> [] \<and> ys \<noteq> [] \<and> is_blank (last xs) \<and> is_endregion (hd ys)))"
  apply (induction xs rule: blank_before_endregion.induct)
  subgoal by auto
  subgoal by simp
  subgoal by (cases ys) auto
  done

lemma empty_line_not_endregion: "\<not> is_endregion (None, [])"
  by (simp add: is_endregion_def startswith_def strip_def)

lemma bbe_Cons_replicate: "\<not> blank_before_endregion (x # replicate n (None, []))"
  by (induction n arbitrary: x) (simp_all add: empty_line_not_endregion)

lemma lookahead_blanks: "\<exists>n. lookahead rest k = replicate n (None, [])"
  by (induction rest k rule: lookahead.induct) (auto simp: Let_def)

lemma cleanup_loop_no_bbe:
  "\<not> blank_before_endregion cleaned \<Longrightarrow> \<not> blank_before_endregion (cleanup_loop rest cleaned)"
proof (induction rest cleaned rule: cleanup_loop.induct)
  case (1 cleaned)
  then show ?case by simp
next
  case (2 line_no line rest cleaned)
  show ?case
  proof (cases "startswith (strip line) ''#endregion''")
    case True
    obtain bs where bs: "cleaned = pop_blank cleaned @ bs" using pop_blank_split by blast
    with "2.prems" have p: "\<not> blank_before_endregion (pop_blank cleaned)"
      by (metis bbe_append)
    have l: "pop_blank cleaned \<noteq> [] \<Longrightarrow> \<not> is_blank (last (pop_blank cleaned))"
      by (rule pop_blank_last)
    obtain n where n: "lookahead rest 0 = replicate n (None, [])"
      using lookahead_blanks by blast
    have e: "\<not> blank_before_endregion ((line_no, line) # replicate n (None, []))"
      by (rule bbe_Cons_replicate)
    have "\<not> blank_before_endregion (pop_blank cleaned @ (line_no, line) # replicate n (None, []))"
      using p l e by (auto simp: bbe_append)
    with True n "2.IH"(1) show ?thesis by (simp add: Let_def)
  next
    case False
    have "\<not> blank_before_endregion (cleaned @ [(line_no, line)])"
      using "2.prems" False by (simp add: bbe_append is_endregion_def)
    with False "2.IH"(2) show ?thesis by (simp add: Let_def)
  qed
qed

lemma cleanup_loop_keeps:
  "\<not> is_blank r \<Longrightarrow> \<exists>ys. cleanup_loop rest (acc @ r # bs) = acc @ r # ys"
proof (induction rest arbitrary: bs)
  case Nil
  then show ?case by simp
next
  case (Cons x rest)
  obtain line_no line where x: "x = (line_no, line)" by (cases x)
  show ?case
  proof (cases "startswith (strip line) ''#endregion''")
    case True
    from Cons.prems obtain bs' where "pop_blank (acc @ r # bs) = acc @ r # bs'"
      using pop_blank_keeps by blast
    with True x Cons.IH [OF Cons.prems, of "bs' @ (line_no, line) # lookahead rest 0"]
    show ?thesis by (simp add: Let_def)
  next
    case False
    with x Cons.IH [OF Cons.prems, of "bs @ [(line_no, line)]"]
    show ?thesis by (simp add: Let_def)
  qed
qed

lemma cleanup_loop_prefix: "\<exists>acc'. cleanup_loop (pre @ rest) acc = cleanup_loop rest acc'"
  by (induction pre arbitrary: acc) (auto simp: Let_def)

lemma lookahead_gap:
  assumes "\<forall>b\<in>set bl. is_blank b" "is_region r"
  shows "lookahead (bl @ r # post) k = replicate (nat (2 - (k + int (length bl)))) (None, [])"
  using assms(1)
proof (induction bl arbitrary: k)
  case Nil
  obtain no line where r: "r = (no, line)" by (cases r)
  with assms(2) region_not_blank [OF assms(2)] show ?case
    by (simp add: is_region_def is_blank_def)
next
  case (Cons b bl)
  obtain no line where b: "b = (no, line)" by (cases b)
  with Cons show ?case by (simp add: is_blank_def add.assoc)
qed

lemma cleanup_loop_blanks:
  "\<forall>b\<in>set bl. is_blank b \<Longrightarrow> cleanup_loop (bl @ rest) acc = cleanup_loop rest (acc @ bl)"
proof (induction bl arbitrary: acc)
  case Nil
  then show ?case by simp
next
  case (Cons b bl)
  obtain no line where b: "b = (no, line)" by (cases b)
  from Cons.prems b have "\<not> startswith (strip line) ''#endregion''"
    using endregion_not_blank [of b] by (auto simp: is_endregion_def)
  with b Cons show ?case by (simp add: Let_def)
qed

lemma cleanup_gap:
  assumes "is_endregion e" "\<forall>b\<in>set bl. is_blank b" "is_region r"
  shows "\<exists>pre' post'. cleanup_region_spacing (pre @ e # bl @ r # post) =
           pre' @ e # replicate (2 - length bl) (None, []) @ bl @ r # post'"
proof -
  obtain acc where 1: "cleanup_loop (pre @ e # bl @ r # post) [] = cleanup_loop (e # bl @ r # post) acc"
    using cleanup_loop_prefix by blast
  obtain eno eline where e: "e = (eno, eline)" by (cases e)
  obtain rno rline where r: "r = (rno, rline)" by (cases r)
  let ?gap = "replicate (2 - length bl) (None, [])"
  have "nat (2 - (0 + int (length bl))) = 2 - length bl" by simp
  with lookahead_gap [OF assms(2,3), of post 0]
  have la: "lookahead (bl @ r # post) 0 = ?gap" by (simp only:)
  from assms(1) e la have 2: "cleanup_loop (e # bl @ r # post) acc =
       cleanup_loop (bl @ r # post) (pop_blank acc @ e # ?gap)"
    by (simp add: is_endregion_def Let_def)
  have 3: "cleanup_loop (bl @ r # post) (pop_blank acc @ e # ?gap) =
       cleanup_loop (r # post) (pop_blank acc @ e # ?gap @ bl)"
    using cleanup_loop_blanks [OF assms(2)] by simp
  from region_not_endregion [OF assms(3)] r
  have 4: "cleanup_loop (r # post) (pop_blank acc @ e # ?gap @ bl) =
       cleanup_loop post ((pop_blank acc @ e # ?gap @ bl) @ r # [])"
    by (simp add: is_endregion_def Let_def)
  from cleanup_loop_keeps [OF region_not_blank [OF assms(3)], of post "pop_blank acc @ e # ?gap @ bl" "[]"]
  obtain ys where 5: "cleanup_loop post ((pop_blank acc @ e # ?gap @ bl) @ r # []) =
       (pop_blank acc @ e # ?gap @ bl) @ r # ys" by blast
  from 1 2 3 4 5 have "cleanup_region_spacing (pre @ e # bl @ r # post) =
       pop_blank acc @ e # ?gap @ bl @ r # ys"
    by (simp add: cleanup_region_spacing_def)
  then show ?thesis by blast
qed

lemma gap_short_before_append:
  "gap_short_before (xs @ ys) rest =
     (gap_short_before xs (ys @ rest) \<or> gap_short_before ys rest)"
  by (induction xs) auto

lemma short_gap_stop:
  assumes "\<forall>b\<in>set bs. is_blank b" "\<not> is_blank x" "\<not> is_region x"
  shows "short_gap (s @ bs @ x # t) = short_gap (s @ x # t')"
proof (cases "\<forall>b\<in>set s. is_blank b")
  case True
  with assms have "dropWhile is_blank (s @ bs @ x # t) = x # t"
    by (simp add: dropWhile_append)
  moreover from True assms have "dropWhile is_blank (s @ x # t') = x # t'"
    by (simp add: dropWhile_append)
  ultimately show ?thesis using assms(3) by (simp add: short_gap_def)
next
  case False
  then have "dropWhile is_blank (s @ bs @ x # t) = dropWhile is_blank s @ bs @ x # t"
    "dropWhile is_blank (s @ x # t') = dropWhile is_blank s @ x # t'"
    "takeWhile is_blank (s @ bs @ x # t) = takeWhile is_blank s"
    "takeWhile is_blank (s @ x # t') = takeWhile is_blank s"
    by (auto simp: dropWhile_append takeWhile_append)
  moreover from False have "dropWhile is_blank s \<noteq> []" by auto
  ultimately show ?thesis
    by (cases "dropWhile is_blank s") (simp_all add: short_gap_def)
qed

lemma gap_short_before_stop:
  assumes "\<forall>b\<in>set bs. is_blank b" "\<not> is_blank x" "\<not> is_region x"
  shows "gap_short_before P (bs @ x # t) = gap_short_before P (x # t')"
proof (induction P)
  case Nil
  then show ?case by simp
next
  case (Cons p P)
  with short_gap_stop [OF assms, of P t t'] show ?case by simp
qed

lemma gap_short_before_blanks:
  "\<forall>b\<in>set bs. is_blank b \<Longrightarrow> \<not> gap_short_before bs rest"
  by (induction bs) (auto dest: endregion_not_blank)

lemma lookahead_end:
  "\<forall>b\<in>set bl. is_blank b \<Longrightarrow> lookahead bl k = []"
proof (induction bl arbitrary: k)
  case Nil
  then show ?case by simp
next
  case (Cons b bl)
  obtain no line where "b = (no, line)" by (cases b)
  with Cons show ?case by (simp add: is_blank_def)
qed

lemma lookahead_other:
  assumes "\<forall>b\<in>set bl. is_blank b" "\<not> is_blank x" "\<not> is_region x"
  shows "lookahead (bl @ x # post) k = []"
  using assms(1)
proof (induction bl arbitrary: k)
  case Nil
  obtain no line where "x = (no, line)" by (cases x)
  with assms(2,3) show ?case by (simp add: is_blank_def is_region_def)
next
  case (Cons b bl)
  obtain no line where "b = (no, line)" by (cases b)
  with Cons show ?case by (simp add: is_blank_def)
qed

lemma empty_line_blank: "is_blank (None, [])"
  by (simp add: is_blank_def strip_def)

lemma lookahead_fills: "\<not> short_gap (lookahead rest 0 @ rest)"
proof -
  let ?bl = "takeWhile is_blank rest"
  have bl: "\<forall>b\<in>set ?bl. is_blank b" by (auto dest: set_takeWhileD)
  show ?thesis
  proof (cases "dropWhile is_blank rest")
    case Nil
    note d = this
    then have "\<forall>b\<in>set rest. is_blank b" by simp
    then have la: "lookahead rest 0 = []" by (rule lookahead_end)
    show ?thesis unfolding short_gap_def la append_Nil d by simp
  next
    case (Cons x post)
    then have x: "\<not> is_blank x" by (metis hd_dropWhile list.distinct(1) list.sel(1))
    from Cons have rest: "rest = ?bl @ x # post" by (metis takeWhile_dropWhile_id)
    show ?thesis
    proof (cases "is_region x")
      case True
      from lookahead_gap [OF bl True, of post 0] rest
      have la: "lookahead rest 0 = replicate (2 - length ?bl) (None, [])" by simp
      have all: "\<forall>b\<in>set (replicate (2 - length ?bl) (None, []) @ ?bl). is_blank b"
        using bl by (auto simp: empty_line_blank)
      have "dropWhile is_blank ((replicate (2 - length ?bl) (None, []) @ ?bl) @ x # post) = x # post"
        using all x by (simp only: dropWhile_append2 dropWhile.simps if_False)
      moreover
      have "takeWhile is_blank ((replicate (2 - length ?bl) (None, []) @ ?bl) @ x # post) =
          replicate (2 - length ?bl) (None, []) @ ?bl"
        using all x by (simp only: takeWhile_append2 takeWhile.simps if_False append_Nil2)
      moreover have "\<not> 2 - length ?bl + length ?bl < 2" by arith
      ultimately have "\<not> short_gap ((replicate (2 - length ?bl) (None, []) @ ?bl) @ x # post)"
        by (simp add: short_gap_def)
      with la rest show ?thesis by (metis append.assoc)
    next
      case False
      from lookahead_other [OF bl x False, of post 0] rest have "lookahead rest 0 = []" by simp
      moreover have "dropWhile is_blank rest = x # post" by (rule Cons)
      ultimately show ?thesis using False by (simp add: short_gap_def)
    qed
  qed
qed

lemma cleanup_loop_no_short_gap:
  "\<not> gap_short_before cleaned rest \<Longrightarrow> \<not> gap_short (cleanup_loop rest cleaned)"
proof (induction rest cleaned rule: cleanup_loop.induct)
  case (1 cleaned)
  then show ?case by (simp add: gap_short_def)
next
  case (2 line_no line rest cleaned)
  let ?x = "(line_no, line)"
  show ?case
  proof (cases "startswith (strip line) ''#endregion''")
    case True
    then have e: "is_endregion ?x" by (simp add: is_endregion_def)
    then have nb: "\<not> is_blank ?x" by (rule endregion_not_blank)
    from e have nr: "\<not> is_region ?x" using region_not_endregion by blast
    obtain bs where bs: "cleaned = pop_blank cleaned @ bs" "\<forall>b\<in>set bs. is_blank b"
      using pop_blank_split by blast
    obtain n where n: "lookahead rest 0 = replicate n (None, [])"
      using lookahead_blanks by blast
    from "2.prems" bs(1) have "\<not> gap_short_before (pop_blank cleaned) (bs @ ?x # rest)"
      by (metis gap_short_before_append)
    then have 1: "\<not> gap_short_before (pop_blank cleaned) (?x # lookahead rest 0 @ rest)"
      using gap_short_before_stop [OF bs(2) nb nr] by blast
    have 2: "\<not> gap_short_before [?x] (lookahead rest 0 @ rest)"
      using lookahead_fills [of rest] by simp
    have 3: "\<not> gap_short_before (lookahead rest 0) rest"
      unfolding n by (rule gap_short_before_blanks) (simp add: empty_line_blank)
    have "\<not> gap_short_before (pop_blank cleaned @ [?x] @ lookahead rest 0) rest"
      using 1 2 3 by (simp add: gap_short_before_append)
    with True "2.IH"(1) show ?thesis by (simp add: Let_def)
  next
    case False
    then have "\<not> is_endregion ?x" by (simp add: is_endregion_def)
    with "2.prems" have "\<not> gap_short_before (cleaned @ [?x]) rest"
      by (simp add: gap_short_before_append)
    with False "2.IH"(2) show ?thesis by (simp add: Let_def)
  qed
qed

text \<open>
  A second run of the cleanup changes nothing: on its own output nothing is popped and
  the look-ahead finds nothing missing.
\<close>

lemma pop_blank_id: "ls = [] \<or> \<not> is_blank (last ls) \<Longrightarrow> pop_blank ls = ls"
  by (subst pop_blank.simps) (auto simp: is_blank_def)

lemma lookahead_nothing_missing: "\<not> short_gap xs \<Longrightarrow> lookahead xs 0 = []"
proof -
  assume ns: "\<not> short_gap xs"
  let ?bl = "takeWhile is_blank xs"
  have bl: "\<forall>b\<in>set ?bl. is_blank b" by (auto dest: set_takeWhileD)
  show ?thesis
  proof (cases "dropWhile is_blank xs")
    case Nil
    then have "\<forall>b\<in>set xs. is_blank b" by simp
    then show ?thesis by (rule lookahead_end)
  next
    case (Cons x post)
    then have x: "\<not> is_blank x" by (metis hd_dropWhile list.distinct(1) list.sel(1))
    from Cons have xs: "xs = ?bl @ x # post" by (metis takeWhile_dropWhile_id)
    show ?thesis
    proof (cases "is_region x")
      case True
      with ns Cons have "\<not> length ?bl < 2" by (simp add: short_gap_def)
      then have "2 - length ?bl = 0" by arith
      with lookahead_gap [OF bl True, of post 0] xs show ?thesis by simp
    next
      case False
      from lookahead_other [OF bl x False, of post 0] xs show ?thesis by simp
    qed
  qed
qed

lemma cleanup_loop_fixed:
  "\<not> blank_before_endregion (acc @ xs) \<Longrightarrow> \<not> gap_short xs \<Longrightarrow> cleanup_loop xs acc = acc @ xs"
proof (induction xs arbitrary: acc)
  case Nil
  then show ?case by simp
next
  case (Cons x xs)
  obtain line_no line where x: "x = (line_no, line)" by (cases x)
  from Cons.prems(2) have g: "\<not> gap_short xs" "is_endregion x \<longrightarrow> \<not> short_gap xs"
    by (simp_all add: gap_short_def)
  from Cons.prems(1) have b: "\<not> blank_before_endregion ((acc @ [x]) @ xs)" by simp
  show ?case
  proof (cases "startswith (strip line) ''#endregion''")
    case True
    with x have e: "is_endregion x" by (simp add: is_endregion_def)
    with Cons.prems(1) have "acc = [] \<or> \<not> is_blank (last acc)"
      by (auto simp: bbe_append)
    then have "pop_blank acc = acc" by (rule pop_blank_id)
    moreover from e g(2) have "lookahead xs 0 = []" by (simp add: lookahead_nothing_missing)
    ultimately show ?thesis using True x Cons.IH [OF b g(1)] by (simp add: Let_def)
  next
    case False
    with x Cons.IH [OF b g(1)] show ?thesis by (simp add: Let_def)
  qed
qed

lemma cleanup_region_spacing_idempotent:
  "cleanup_region_spacing (cleanup_region_spacing ls) = cleanup_region_spacing ls"
  using cleanup_loop_fixed [of "[]" "cleanup_region_spacing ls"]
    cleanup_loop_no_bbe [of "[]" ls] cleanup_loop_no_short_gap [of "[]" ls]
  by (simp add: cleanup_region_spacing_def)

text \<open>
  Claim C5, as stated, asks for exactly two blank lines between a region-close line and
  the region-open line that follows it.  Three blank lines between them stay three.
\<close>

theorem cleanup_keeps_excess_blanks:
  "cleanup_region_spacing
     [(None, ''#endregion''), (None, ''''), (None, ''''), (None, ''''), (None, ''#region B'')] =
   [(None, ''#endregion''), (None, ''''), (None, ''''), (None, ''''), (None, ''#region B'')]"
  by (simp add: cleanup_region_spacing_def strip_def py_isspace_def startswith_def pop_blank.simps)

text \<open>
  Claim C5, amended.  After the cleanup no region-close line comes right after a blank
  line, and no region-close line is followed by fewer than two blank lines and then a
  region-open line.  Where a region-close line of the input is followed by \<open>k\<close> blank
  lines and then a region-open line, the output holds the region-close line, then
  \<open>2 - k\<close> new empty lines (none when \<open>k\<close> is two or more), then the \<open>k\<close> blank lines
  as they were, then the region-open line: at least two blank lines, exactly two when
  there were at most two, and no blank line of the input between the pair is removed.
\<close>

theorem cleanup_region_spacing_gap:
  "\<not> blank_before_endregion (cleanup_region_spacing ls) \<and>
   \<not> gap_short (cleanup_region_spacing ls) \<and>
   (is_endregion e \<and> (\<forall>b\<in>set bl. is_blank b) \<and> is_region r \<longrightarrow>
      (\<exists>pre' post'. cleanup_region_spacing (pre @ e # bl @ r # post) =
         pre' @ e # replicate (2 - length bl) (None, []) @ bl @ r # post'))"
  using cleanup_loop_no_bbe [of "[]" ls] cleanup_loop_no_short_gap [of "[]" ls]
    cleanup_gap [of e bl r pre post]
  by (simp add: cleanup_region_spacing_def)

text \<open>Two regions in a row, one blank line between them and one before the first close.\<close>

theorem cleanup_region_spacing_gap_witness:
  "\<not> blank_before_endregion
      (cleanup_region_spacing
         [(None, ''#region A''), (Some 2, ''var a''), (None, ''''), (None, ''#endregion''),
          (None, ''''), (None, ''#region B''), (Some 6, ''var b''), (None, ''#endregion'')]) \<and>
   \<not> gap_short
      (cleanup_region_spacing
         [(None, ''#region A''), (Some 2, ''var a''), (None, ''''), (None, ''#endregion''),
          (None, ''''), (None, ''#region B''), (Some 6, ''var b''), (None, ''#endregion'')]) \<and>
   is_endregion (None, ''#endregion'') \<and> is_blank (None, '''') \<and> is_region (None, ''#region B'') \<and>
   cleanup_region_spacing
     [(None, ''#region A''), (Some 2, ''var a''), (None, ''''), (None, ''#endregion''),
      (None, ''''), (None, ''#region B''), (Some 6, ''var b''), (None, ''#endregion'')] =
   [(None, ''#region A''), (Some 2, ''var a''), (None, ''#endregion''),
    (None, ''''), (None, ''''), (None, ''#region B''), (Some 6, ''var b''), (None, ''#endregion'')]"
  using cleanup_region_spacing_gap
    [where ls = "[(None, ''#region A''), (Some 2, ''var a''), (None, ''''), (None, ''#endregion''),
          (None, ''''), (None, ''#region B''), (Some 6, ''var b''), (None, ''#endregion'')]"
      and e = "(None, ''#endregion'')" and bl = "[(None, '''')]" and r = "(None, ''#region B'')"
      and pre = "[(None, ''#region A''), (Some 2, ''var a''), (None, '''')]"
      and post = "[(Some 6, ''var b''), (None, ''#endregion'')]"]
  by (simp add: cleanup_region_spacing_def is_endregion_def is_blank_def is_region_def
      strip_def py_isspace_def startswith_def pop_blank.simps)

section \<open>The class-statement dispatcher\<close>






text \<open>
  Claim C7.  A static function statement is formatted by formatting its first child with
  the same context; of the outcome only the text of the first line changes, to the
  context's indent string, then \<open>static \<close>, then the stripped text.  The first line's
  number, the other lines and the last processed line number are returned as they are.
\<close>

theorem static_function_prefix:
  assumes "format_class_statement ext child ctx = Inr ((first_line_no, first_line) # tail_lines, last_no)"
  shows "format_class_statement ext (Tree ''static_func_def'' (child # others) ln eln) ctx =
           Inr ((first_line_no, indent_string ctx @ ''static '' @ strip first_line) # tail_lines, last_no)"
  using assms by (simp add: handlers_def)

lemma static_foo_child_result:
  "format_class_statement sample_collaborators static_foo_child (sample_context ''    '') =
     Inr ([(Some 1, ''    func foo():''), (Some 2, ''        pass'')], 2)"
  by (simp add: static_foo_child_def handlers_def format_func_def_def format_func_header_def
      bind_def item_def sample_collaborators_def sample_expression_def sample_context_def
      sample_child_context_def sample_func_statement_def sample_simple_statement_def)

text \<open>
  \<open>static func foo():\<close> with the body \<open>pass\<close>, at one indent unit: the first line is
  the indent unit followed by \<open>static func foo():\<close>.
\<close>

theorem static_function_prefix_witness:
  "format_class_statement sample_collaborators static_foo_child (sample_context ''    '') =
     Inr ([(Some 1, ''    func foo():''), (Some 2, ''        pass'')], 2) \<and>
   format_class_statement sample_collaborators
     (Tree ''static_func_def'' [static_foo_child] 1 2) (sample_context ''    '') =
     Inr ([(Some 1, ''    static func foo():''), (Some 2, ''        pass'')], 2)"
  using static_function_prefix [OF static_foo_child_result, of "[]" 1 2] static_foo_child_result
  by (simp add: strip_def py_isspace_def sample_context_def)

text \<open>
  Claim C8.  A const statement with four children has the prefix \<open>const X = \<close>, with
  five \<open>const X := \<close>, with six \<open>const X: T = \<close>; the last child goes to the expression
  formatter with that prefix, the statement's line, the empty suffix and the statement's
  end line.  With any other number of children no prefix is assigned and the statement
  raises \<open>UnboundLocalError\<close>.
\<close>

theorem const_prefix_shapes:
  "format_const_statement ext (Tree d [c0, Token t1 name, c2, value_expr] ln eln) ctx =
     format_expression ext value_expr
       \<lparr>prefix_string = ''const '' @ name @ '' = '', prefix_line = ln,
        suffix_string = [], suffix_line = eln\<rparr> ctx \<and>
   format_const_statement ext (Tree d [c0, Token t1 name, c2, c3, value_expr] ln eln) ctx =
     format_expression ext value_expr
       \<lparr>prefix_string = ''const '' @ name @ '' := '', prefix_line = ln,
        suffix_string = [], suffix_line = eln\<rparr> ctx \<and>
   format_const_statement ext (Tree d [c0, Token t1 name, c2, Token t3 ty, c4, value_expr] ln eln) ctx =
     format_expression ext value_expr
       \<lparr>prefix_string = ''const '' @ name @ '': '' @ ty @ '' = '', prefix_line = ln,
        suffix_string = [], suffix_line = eln\<rparr> ctx \<and>
   (length ch \<noteq> 4 \<and> length ch \<noteq> 5 \<and> length ch \<noteq> 6 \<longrightarrow>
      format_const_statement ext (Tree d ch ln eln) ctx = Inl UnboundLocalError)"
  by (simp add: format_const_statement_def bind_def last_item_def)

text \<open>
  \<open>const X = 1\<close>, \<open>const X := 1\<close> and \<open>const X: int = 1\<close> come back as they are with
  the sample collaborators; a const statement with two children raises.
\<close>

theorem const_prefix_shapes_witness:
  "format_class_statement sample_collaborators
     (Tree ''const_stmt''
        [Token ''CONST'' ''const'', Token ''NAME'' ''X'', Token ''EQUAL'' ''='', Token ''NUMBER'' ''1'']
        1 1) (sample_context '''') = Inr ([(Some 1, ''const X = 1'')], 1) \<and>
   format_class_statement sample_collaborators
     (Tree ''const_stmt''
        [Token ''CONST'' ''const'', Token ''NAME'' ''X'', Token ''COLON'' '':'', Token ''EQUAL'' ''='',
         Token ''NUMBER'' ''1'']
        1 1) (sample_context '''') = Inr ([(Some 1, ''const X := 1'')], 1) \<and>
   format_class_statement sample_collaborators
     (Tree ''const_stmt''
        [Token ''CONST'' ''const'', Token ''NAME'' ''X'', Token ''COLON'' '':'', Token ''TYPE'' ''int'',
         Token ''EQUAL'' ''='', Token ''NUMBER'' ''1'']
        1 1) (sample_context '''') = Inr ([(Some 1, ''const X: int = 1'')], 1) \<and>
   format_class_statement sample_collaborators
     (Tree ''const_stmt'' [Token ''CONST'' ''const'', Token ''NAME'' ''X''] 1 1) (sample_context '''')
     = Inl UnboundLocalError"
  using
    const_prefix_shapes [where ext = sample_collaborators and d = "''const_stmt''"
      and ?c0.0 = "Token ''CONST'' ''const''" and ?t1.0 = "''NAME''" and name = "''X''"
      and ?c2.0 = "Token ''COLON'' '':''" and ?c3.0 = "Token ''EQUAL'' ''=''"
      and ?t3.0 = "''TYPE''" and ty = "''int''" and ?c4.0 = "Token ''EQUAL'' ''=''"
      and value_expr = "Token ''NUMBER'' ''1''" and ln = 1 and eln = 1
      and ctx = "sample_context ''''"
      and ch = "[Token ''CONST'' ''const'', Token ''NAME'' ''X'']"]
  by (simp add: handlers_def format_const_statement_def bind_def last_item_def
      sample_collaborators_def sample_expression_def sample_context_def)

section \<open>Which comments the two passes emit\<close>

text \<open>
  The slots the inline pass hands to the lines, and the batches the standalone pass
  claims, as multisets of table entries.  These lemmas concern the two passes alone, on
  any list of lines; what lines the block driver hands to them is not part of the model.
\<close>

lemma inline_fwd_claimed:
  "inline_fwd off ls tbl =
     map2 (\<lambda>l cs. (fst l, attach off (snd l) (somes cs))) ls (inline_claimed ls tbl)"
  by (induction off ls tbl rule: inline_fwd.induct) (simp_all add: attach_def)

lemma inline_claimed_mset:
  "mset (concat (inline_claimed ls tbl)) + mset (take (inline_cursor ls (length tbl)) tbl) = mset tbl"
proof (induction ls tbl rule: inline_claimed.induct)
  case (1 tbl)
  then show ?case by simp
next
  case (2 line ls tbl)
  then show ?case by simp
next
  case (3 n line ls tbl)
  let ?c = "inline_cursor ls (length tbl)"
  have "mset (drop n (take ?c tbl)) + mset (take (min n ?c) tbl) = mset (take ?c tbl)"
    by (metis append_take_drop_id mset_append take_take union_commute)
  with 3 show ?case by (simp add: ac_simps)
qed


lemma inline_claimed_exact:
  "mset (concat (inline_claimed ls tbl)) = mset (drop (inline_cursor ls (length tbl)) tbl)"
proof -
  let ?c = "inline_cursor ls (length tbl)"
  have "mset (take ?c tbl) + mset (drop ?c tbl) = mset tbl"
    by (metis append_take_drop_id mset_append)
  with inline_claimed_mset [of ls tbl] show ?thesis
    by (metis add.commute add_left_cancel)
qed

lemma somes_append: "somes (xs @ ys) = somes xs @ somes ys"
  by (induction xs rule: somes.induct) simp_all

lemma somes_rev: "somes (rev xs) = rev (somes xs)"
  by (induction xs rule: somes.induct) (simp_all add: somes_append)

lemma nonblank_append: "nonblank (xs @ ys) = nonblank xs @ nonblank ys"
  by (simp add: nonblank_def)

lemma nonblank_pop_blank: "nonblank (pop_blank ls) = nonblank ls"
proof -
  obtain bs where bs: "ls = pop_blank ls @ bs" "\<forall>b\<in>set bs. is_blank b"
    using pop_blank_split by blast
  from bs(2) have "nonblank bs = []" by (simp add: nonblank_def)
  with bs(1) show ?thesis by (metis append_Nil2 nonblank_append)
qed

lemma emit_comments_nonblank:
  "mset (nonblank (emit_comments indent batch post)) =
     mset (nonblank post) + mset (nonblank (map (\<lambda>c. (None, indent @ c)) (somes batch)))"
proof (induction indent batch post rule: emit_comments.induct)
  case (1 indent post)
  then show ?case by (simp add: nonblank_def)
next
  case (2 indent rest post)
  then show ?case by simp
next
  case (3 indent comment rest post)
  have b: "is_blank (None, [])" by (simp add: is_blank_def strip_def)
  show ?case
  proof (cases "startswith (strip comment) ''#region''")
    case True
    with 3 show ?thesis
      by (simp add: nonblank_def b)
  next
    case False
    note nr = this
    show ?thesis
    proof (cases "startswith (strip comment) ''#endregion''")
      case True
      with nr 3 show ?thesis
        using arg_cong [OF nonblank_pop_blank [of post], of mset]
        by (simp add: nonblank_def b Let_def)
    next
      case False
      with nr 3 show ?thesis
        by (simp add: nonblank_def)
    qed
  qed
qed

lemma standalone_loop_total:
  "(inside \<longrightarrow> post \<noteq> []) \<Longrightarrow> \<exists>out. standalone_loop re ls remaining post inside last_no = Inr out"
proof (induction ls arbitrary: remaining post inside last_no)
  case Nil
  then show ?case by simp
next
  case (Cons x ls)
  obtain no line where x: "x = (no, line)" by (cases x)
  show ?case
  proof (cases no)
    case None
    with x Cons.IH [of False] show ?thesis by simp
  next
    case (Some n)
    show ?thesis
    proof (cases inside)
      case True
      with Cons.prems have "post \<noteq> []" by simp
      with True Some x Cons.IH [of True] show ?thesis by (simp add: Let_def)
    next
      case False
      with Some x Cons.IH [of True] show ?thesis by simp
    qed
  qed
qed

lemma rendered_nonblank:
  "mset (nonblank (map (\<lambda>c. (None, indent @ c)) (somes (rev batch)))) =
     mset (nonblank (rendered (indent, batch)))"
  by (simp add: rendered_def nonblank_def somes_rev rev_map [symmetric] rev_filter [symmetric])

lemma standalone_loop_nonblank:
  assumes "standalone_loop re ls remaining post inside last_no = Inr out"
    and "inside \<longrightarrow> post \<noteq> [] \<and> following = snd (last post)"
  shows "mset (nonblank out) =
           mset (nonblank post) + mset (nonblank ls)
             + mset (nonblank (concat (map rendered
                 (standalone_claimed re ls remaining inside last_no following))))"
  using assms
proof (induction ls arbitrary: remaining post inside last_no following)
  case Nil
  then show ?case by (simp add: nonblank_def)
next
  case (Cons x ls)
  obtain no line where x: "x = (no, line)" by (cases x)
  show ?case
  proof (cases no)
    case None
    with x Cons.prems have "standalone_loop re ls remaining (post @ [x]) False last_no = Inr out"
      by simp
    from Cons.IH [OF this, of line] None x show ?thesis
      by (simp add: nonblank_def)
  next
    case (Some n)
    show ?thesis
    proof (cases inside)
      case False
      with Some x Cons.prems
      have "standalone_loop re ls remaining (post @ [x]) True (Some n) = Inr out" by simp
      from Cons.IH [OF this, of line] False Some x show ?thesis
        by (simp add: nonblank_def)
    next
      case True
      with Cons.prems have p: "post \<noteq> []" "following = snd (last post)" by simp_all
      let ?indent = "get_greater_indent re line following"
      let ?batch = "py_slice remaining n last_no"
      from True Some x p Cons.prems(1)
      have "standalone_loop re ls (take n remaining)
              (emit_comments ?indent (rev ?batch) post @ [x]) True last_no = Inr out"
        by (simp add: Let_def)
      from Cons.IH [OF this, of line] True Some x
      have "mset (nonblank out) =
              mset (nonblank (emit_comments ?indent (rev ?batch) post)) + mset (nonblank [x])
                + mset (nonblank ls)
                + mset (nonblank (concat (map rendered
                    (standalone_claimed re ls (take n remaining) True last_no line))))"
        by (simp add: nonblank_append)
      with True Some x show ?thesis
        by (simp add: emit_comments_nonblank rendered_nonblank nonblank_append)
          (simp add: nonblank_def)
    qed
  qed
qed

lemma py_slice_mset: "mset (py_slice xs n hi) + mset (take n xs) \<subseteq># mset xs"
proof -
  have "mset (py_slice xs n hi) \<subseteq># mset (drop n xs)"
  proof (cases hi)
    case None
    then show ?thesis by (simp add: py_slice_def)
  next
    case (Some h)
    have "drop n (take h xs) = take (h - n) (drop n xs)" by (simp add: drop_take)
    moreover have "mset (take (h - n) (drop n xs)) \<subseteq># mset (drop n xs)"
      by (metis append_take_drop_id mset_append mset_subset_eq_add_left)
    ultimately show ?thesis using Some by (simp add: py_slice_def)
  qed
  moreover have "mset (drop n xs) + mset (take n xs) = mset xs"
    by (metis append_take_drop_id mset_append union_commute)
  ultimately show ?thesis
    by (metis subset_mset.add_le_cancel_right)
qed

lemma standalone_claimed_mset:
  "mset (concat (map snd (standalone_claimed re ls remaining inside last_no following)))
     \<subseteq># mset remaining"
proof (induction re ls remaining inside last_no following rule: standalone_claimed.induct)
  case (1 re remaining inside last_no following)
  then show ?case by simp
next
  case (2 re line rest remaining inside last_no following)
  then show ?case by simp
next
  case (3 re line_no line rest remaining inside last_no following)
  show ?case
  proof (cases inside)
    case False
    with 3 show ?thesis by simp
  next
    case True
    with 3 have "mset (concat (map snd
        (standalone_claimed re rest (take line_no remaining) inside last_no line)))
        \<subseteq># mset (take line_no remaining)" by simp
    then have "mset (py_slice remaining line_no last_no) + mset (concat (map snd
        (standalone_claimed re rest (take line_no remaining) inside last_no line)))
        \<subseteq># mset (py_slice remaining line_no last_no) + mset (take line_no remaining)"
      by (simp only: subset_mset.add_le_cancel_left)
    also have "\<dots> \<subseteq># mset remaining" by (rule py_slice_mset)
    finally show ?thesis using True by simp
  qed
qed

lemma adjacent_numbered_append:
  "adjacent_numbered (xs @ ys) =
     (adjacent_numbered xs \<or> adjacent_numbered ys \<or>
      (xs \<noteq> [] \<and> ys \<noteq> [] \<and> fst (last xs) \<noteq> None \<and> fst (hd ys) \<noteq> None))"
  apply (induction xs rule: adjacent_numbered.induct)
  subgoal by auto
  subgoal by simp
  subgoal by (cases ys) auto
  done

lemma adjacent_numbered_rev: "adjacent_numbered (rev ls) = adjacent_numbered ls"
  apply (induction ls rule: adjacent_numbered.induct)
  subgoal by (auto simp: adjacent_numbered_append last_rev hd_rev)
  subgoal by simp
  subgoal by simp
  done

lemma not_adjacent_tail: "\<not> adjacent_numbered (x # xs) \<Longrightarrow> \<not> adjacent_numbered xs"
  by (cases xs) auto

lemma not_adjacent_next:
  "\<not> adjacent_numbered (x # xs) \<Longrightarrow> fst x \<noteq> None \<Longrightarrow> xs = [] \<or> fst (hd xs) = None"
  by (cases xs) auto

lemma standalone_loop_no_adjacent:
  "\<not> adjacent_numbered xs \<Longrightarrow> (inside \<longrightarrow> xs = [] \<or> fst (hd xs) = None) \<Longrightarrow>
     standalone_loop re xs remaining post inside last_no = Inr (post @ xs)"
proof (induction xs arbitrary: post inside last_no)
  case Nil
  then show ?case by simp
next
  case (Cons x xs)
  obtain no line where x: "x = (no, line)" by (cases x)
  note tail = not_adjacent_tail [OF Cons.prems(1)]
  show ?case
  proof (cases no)
    case None
    with x Cons.IH [OF tail, of False] show ?thesis by simp
  next
    case (Some n)
    with x Cons.prems(2) have out: "\<not> inside" by simp
    from Some x not_adjacent_next [OF Cons.prems(1)] have "xs = [] \<or> fst (hd xs) = None" by simp
    with Some x out Cons.IH [OF tail, of True] show ?thesis by simp
  qed
qed

lemma standalone_claimed_no_adjacent:
  "\<not> adjacent_numbered xs \<Longrightarrow> (inside \<longrightarrow> xs = [] \<or> fst (hd xs) = None) \<Longrightarrow>
     standalone_claimed re xs remaining inside last_no following = []"
proof (induction xs arbitrary: inside last_no following)
  case Nil
  then show ?case by simp
next
  case (Cons x xs)
  obtain no line where x: "x = (no, line)" by (cases x)
  note tail = not_adjacent_tail [OF Cons.prems(1)]
  show ?case
  proof (cases no)
    case None
    with x Cons.IH [OF tail, of False] show ?thesis by simp
  next
    case (Some n)
    with x Cons.prems(2) have out: "\<not> inside" by simp
    from Some x not_adjacent_next [OF Cons.prems(1)] have "xs = [] \<or> fst (hd xs) = None" by simp
    with Some x out Cons.IH [OF tail, of True] show ?thesis by simp
  qed
qed

lemma nonblank_rev: "mset (nonblank (rev ls)) = mset (nonblank ls)"
  by (simp add: nonblank_def)

lemma standalone_pass_emits:
  "\<exists>out. add_standalone_comments re ms stbl = Inr out \<and>
     mset (nonblank out) =
       mset (nonblank ms)
         + mset (nonblank (concat (map rendered
             (standalone_claimed re (rev ms) stbl False None [])))) \<and>
     (\<not> adjacent_numbered ms \<longrightarrow> out = ms)"
proof -
  obtain out' where out': "standalone_loop re (rev ms) stbl [] False None = Inr out'"
    using standalone_loop_total [of False "[]" re "rev ms" stbl None] by auto
  from standalone_loop_nonblank [OF out', of "[]"]
  have "mset (nonblank out') =
          mset (nonblank (rev ms))
            + mset (nonblank (concat (map rendered
                (standalone_claimed re (rev ms) stbl False None []))))"
    by (simp add: nonblank_def)
  then have m: "mset (nonblank (rev out')) =
          mset (nonblank ms)
            + mset (nonblank (concat (map rendered
                (standalone_claimed re (rev ms) stbl False None []))))"
    by (simp only: nonblank_rev)
  have "out' = rev ms" if "\<not> adjacent_numbered ms"
  proof -
    from that have "\<not> adjacent_numbered (rev ms)" by (simp add: adjacent_numbered_rev)
    from standalone_loop_no_adjacent [OF this, of False re stbl "[]" None] out'
    show ?thesis by simp
  qed
  with out' m show ?thesis by (auto simp: add_standalone_comments_def)
qed

end
